theory Spec2Isabelle
  imports
    Complex_Main
    "HOL-Library.Word"
    "HOL-Library.Char_ord"
    "HOL-Library.List_Lexorder"
    "HOL-Library.AList"
    "HOL-Library.Multiset"
    "HOL-Library.Countable"
begin

unbundle bit_operations_syntax

section \<open>Python values and library primitives\<close>

text \<open>
  The violation-certificate core of the repository: \<^verbatim>\<open>r1cs_utils.py\<close>, \<^verbatim>\<open>commitment.py\<close>,
  \<^verbatim>\<open>violation_iop.py\<close>, \<^verbatim>\<open>prover.py\<close>, \<^verbatim>\<open>verifier.py\<close>, \<^verbatim>\<open>fingerprint.py\<close> and
  \<^verbatim>\<open>slicer.py\<close>.

  Conventions of the embedding.
  \<^item> A Python \<^verbatim>\<open>dict\<close> is an association list in insertion order; its keys are distinct.
  \<^item> A Python \<^verbatim>\<open>float\<close> is an exact rational (\<^typ>\<open>rat\<close>): rounding, infinities and
    NaN are outside the model. The concrete inputs evaluated below are dyadic rationals on
    which binary floating point computes the same values, and no general theorem below
    depends on the value that the arithmetic of the evaluator returns.
  \<^item> Everything that is handed to \<^verbatim>\<open>json.dumps\<close> is a value of type \<open>json\<close>.
  \<^item> Library functions are parameters of the functions that call them:
    \<open>sha\<close> is \<^verbatim>\<open>hashlib.sha256\<close> on the UTF-8 encoding of a string (its 256-bit digest),
    \<open>enc\<close> is the rendering of \<^verbatim>\<open>json.dumps(..., separators=(",", ":"), ensure_ascii=False)\<close>
    once the keys are in sorted order, \<open>nonce\<close>/\<open>nonces\<close> are the results of
    \<^verbatim>\<open>secrets.token_hex(16)\<close>, \<open>fmt\<close> is the format \<^verbatim>\<open>:.12g\<close> and \<open>log1p\<close> is
    \<^verbatim>\<open>math.log1p\<close>. Theorems hold for every choice of them.
\<close>

datatype json = JNull | JBool bool | JInt int | JNum rat | JStr string
  | JList "json list" | JDict "(string \<times> json) list"

instance json :: countable
  by countable_datatype

datatype py_error = NameError string

type_synonym sha256 = "string \<Rightarrow> 256 word"

type_synonym encoder = "json \<Rightarrow> string"

text \<open>\<^verbatim>\<open>sort_keys=True\<close>: every dictionary is written with its keys in sorted order.\<close>

fun sort_keys :: "json \<Rightarrow> json" where
  "sort_keys (JList xs) = JList (map sort_keys xs)"
| "sort_keys (JDict kvs) = JDict (sort_key fst (map (\<lambda>(k, v). (k, sort_keys v)) kvs))"
| "sort_keys j = j"

definition json_dumps :: "encoder \<Rightarrow> json \<Rightarrow> string" where
  "json_dumps enc j = enc (sort_keys j)"

definition hexchar :: "nat \<Rightarrow> char" where
  "hexchar n = ''0123456789abcdef'' ! (n mod 16)"

text \<open>\<^verbatim>\<open>.hexdigest()\<close>: the 64 lower-case hexadecimal digits of the digest.\<close>

definition hexdigest :: "256 word \<Rightarrow> string" where
  "hexdigest w = map (\<lambda>i. hexchar (unat (drop_bit (4 * (63 - i)) w AND 15))) [0..<64]"

definition sha256_hexdigest :: "sha256 \<Rightarrow> string \<Rightarrow> string" where
  "sha256_hexdigest sha s = hexdigest (sha s)"

text \<open>\<^verbatim>\<open>math.isclose(a, b, rel_tol=..., abs_tol=...)\<close> on finite values.\<close>

definition isclose :: "rat \<Rightarrow> rat \<Rightarrow> rat \<Rightarrow> rat \<Rightarrow> bool" where
  "isclose a b rel_tol abs_tol =
     (a = b \<or> \<bar>b - a\<bar> \<le> \<bar>rel_tol * b\<bar> \<or> \<bar>b - a\<bar> \<le> \<bar>rel_tol * a\<bar> \<or> \<bar>b - a\<bar> \<le> abs_tol)"

text \<open>The tolerances \<^verbatim>\<open>rel_tol=1e-9, abs_tol=1e-12\<close> of the prover and the verifier.\<close>

definition REL_TOL :: rat where
  "REL_TOL = 1 / 10 ^ 9"

definition ABS_TOL :: rat where
  "ABS_TOL = 1 / 10 ^ 12"

text \<open>\<^verbatim>\<open>sep.join(parts)\<close>.\<close>

fun join :: "string \<Rightarrow> string list \<Rightarrow> string" where
  "join sep [] = []"
| "join sep [x] = x"
| "join sep (x # y # ys) = x @ sep @ join sep (y # ys)"

text \<open>\<^verbatim>\<open>xs[:k]\<close>: a negative \<open>k\<close> counts from the end.\<close>

definition slice_to :: "'a list \<Rightarrow> int \<Rightarrow> 'a list" where
  "slice_to xs k = (if 0 \<le> k then take (nat k) xs else take (length xs - nat (- k)) xs)"

section \<open>\<^verbatim>\<open>r1cs_utils.py\<close>: the data model and the evaluator\<close>

type_synonym linear = "(string \<times> rat) list"

text \<open>
  A constraint \<^verbatim>\<open>{"A": {...}, "B": {...}, "C": {...}, "source": "..."}\<close>. The parts are
  only read through \<^verbatim>\<open>constraint.get(part, {})\<close>, so a missing part is the empty
  dictionary; \<open>c_source\<close> is \<open>None\<close> when the key is missing.
\<close>

record constraint =
  A_form :: linear
  B_form :: linear
  C_form :: linear
  c_source :: "string option"

record r1cs =
  variables :: "(string \<times> int) list"
  constraints :: "constraint list"

type_synonym witness = "(string \<times> rat) list"

text \<open>
  \<^verbatim>\<open>eval_linear_form\<close> and \<^verbatim>\<open>eval_constraint\<close>. The sums and products are exact here, where
  the code accumulates IEEE doubles: the two agree when every intermediate value is a
  double (as on the concrete inputs below) and can differ by rounding or overflow
  otherwise. The general theorems treat the residual as a value and hold for any result
  of the arithmetic.
\<close>

definition eval_linear_form :: "linear \<Rightarrow> witness \<Rightarrow> rat" where
  "eval_linear_form lin assignment =
     foldl (\<lambda>s (var, coeff). s + coeff * (case map_of assignment var of None \<Rightarrow> 0 | Some val \<Rightarrow> val))
       0 lin"

definition eval_constraint :: "constraint \<Rightarrow> witness \<Rightarrow> rat" where
  "eval_constraint c assignment =
     (let a_val = eval_linear_form (A_form c) assignment;
          b_val = eval_linear_form (B_form c) assignment;
          c_val = eval_linear_form (C_form c) assignment
      in (a_val * b_val) - c_val)"

text \<open>
  \<^verbatim>\<open>constraint_support\<close> returns a Python set. The model lists its elements without
  repetition; the order in which Python iterates over the set is not specified, and every
  consumer below (\<open>sort_keys\<close>, lookups, \<open>sort\<close>, \<open>length\<close>) is insensitive to it.
\<close>

definition constraint_support :: "constraint \<Rightarrow> string list" where
  "constraint_support c = remdups (map fst (A_form c) @ map fst (B_form c) @ map fst (C_form c))"

definition constraint_nz_count :: "constraint \<Rightarrow> nat" where
  "constraint_nz_count c =
     length (filter (\<lambda>v. v \<noteq> 0) (map snd (A_form c)))
     + length (filter (\<lambda>v. v \<noteq> 0) (map snd (B_form c)))
     + length (filter (\<lambda>v. v \<noteq> 0) (map snd (C_form c)))"

record summary =
  support_size :: nat
  nz_count :: nat
  support :: "string list"
  s_source :: string

definition constraint_summary :: "constraint \<Rightarrow> summary" where
  "constraint_summary c =
     (let supp = constraint_support c
      in \<lparr> support_size = length supp,
           nz_count = constraint_nz_count c,
           support = sort supp,
           s_source = (case c_source c of None \<Rightarrow> [] | Some s \<Rightarrow> s) \<rparr>)"

section \<open>\<^verbatim>\<open>commitment.py\<close>\<close>

text \<open>A committed or opened mapping: variable name to value, \<open>None\<close> for Python's \<^verbatim>\<open>None\<close>.\<close>

type_synonym mapping = "(string \<times> rat option) list"

definition mapping_json :: "mapping \<Rightarrow> json" where
  "mapping_json m = JDict (map (\<lambda>(k, v). (k, case v of None \<Rightarrow> JNull | Some x \<Rightarrow> JNum x)) m)"

text \<open>An opening \<^verbatim>\<open>{"mapping": ..., "nonce": ...}\<close>; a field is \<open>None\<close> when the key is missing.\<close>

record opening_obj =
  o_mapping :: "mapping option"
  o_nonce :: "string option"

definition canonical_serialize_map :: "encoder \<Rightarrow> mapping \<Rightarrow> string" where
  "canonical_serialize_map enc m = json_dumps enc (mapping_json m)"

definition commit_map :: "sha256 \<Rightarrow> encoder \<Rightarrow> string \<Rightarrow> mapping \<Rightarrow> string \<times> string" where
  "commit_map sha enc nonce m =
     (let serial = canonical_serialize_map enc m;
          blob = serial @ ''|'' @ nonce;
          h = sha256_hexdigest sha blob
      in (h, nonce))"

definition open_map :: "mapping \<Rightarrow> string \<Rightarrow> opening_obj" where
  "open_map m nonce = \<lparr> o_mapping = Some m, o_nonce = Some nonce \<rparr>"

definition verify_commit :: "sha256 \<Rightarrow> encoder \<Rightarrow> string \<Rightarrow> opening_obj \<Rightarrow> bool" where
  "verify_commit sha enc commitment_hex opn =
     (case o_mapping opn of
        None \<Rightarrow> False
      | Some m \<Rightarrow>
          (case o_nonce opn of
             None \<Rightarrow> False
           | Some nonce \<Rightarrow>
               (let serial = canonical_serialize_map enc m;
                    blob = serial @ ''|'' @ nonce;
                    h = sha256_hexdigest sha blob
                in h = commitment_hex)))"

section \<open>\<^verbatim>\<open>violation_iop.py\<close>: the transcript\<close>

text \<open>
  A violation entry \<^verbatim>\<open>{"idx", "residual", "opening", "source"}\<close>. The verifier reads
  every field with \<^verbatim>\<open>entry.get\<close>: \<open>None\<close> stands for a missing key, and for \<open>e_opening\<close> (the key \<^verbatim>\<open>opening\<close>)
  also for \<^verbatim>\<open>None\<close>, which is what the prover writes.
\<close>

record entry =
  idx :: "int option"
  residual :: "rat option"
  e_opening :: "opening_obj option"
  source :: "string option"

record transcript =
  witness_commitments :: "(string \<times> string) list"
  violations :: "entry list"
  meta :: "(string \<times> json) list"
  digest :: "string option"

definition opening_json :: "opening_obj \<Rightarrow> json" where
  "opening_json opn =
     JDict ((case o_mapping opn of None \<Rightarrow> [] | Some m \<Rightarrow> [(''mapping'', mapping_json m)])
          @ (case o_nonce opn of None \<Rightarrow> [] | Some n \<Rightarrow> [(''nonce'', JStr n)]))"

definition entry_json :: "entry \<Rightarrow> json" where
  "entry_json e =
     JDict ((case idx e of None \<Rightarrow> [] | Some i \<Rightarrow> [(''idx'', JInt i)])
          @ (case residual e of None \<Rightarrow> [] | Some r \<Rightarrow> [(''residual'', JNum r)])
          @ [(''opening'', case e_opening e of None \<Rightarrow> JNull | Some opn \<Rightarrow> opening_json opn)]
          @ (case source e of None \<Rightarrow> [] | Some s \<Rightarrow> [(''source'', JStr s)]))"

definition transcript_json :: "transcript \<Rightarrow> json" where
  "transcript_json t =
     JDict ([(''witness_commitments'', JDict (map (\<lambda>(k, d). (k, JStr d)) (witness_commitments t))),
             (''violations'', JList (map entry_json (violations t))),
             (''meta'', JDict (meta t))]
          @ (case digest t of None \<Rightarrow> [] | Some d \<Rightarrow> [(''digest'', JStr d)]))"

definition transcript_digest :: "sha256 \<Rightarrow> encoder \<Rightarrow> transcript \<Rightarrow> string" where
  "transcript_digest sha enc t = sha256_hexdigest sha (json_dumps enc (transcript_json t))"

definition make_transcript ::
  "sha256 \<Rightarrow> encoder \<Rightarrow> (string \<times> string) list \<Rightarrow> entry list \<Rightarrow> (string \<times> json) list option
     \<Rightarrow> transcript" where
  "make_transcript sha enc wcs violation_entries meta_arg =
     (let m = (case meta_arg of None \<Rightarrow> [] | Some x \<Rightarrow> x);
          tx = \<lparr> witness_commitments = wcs, violations = violation_entries, meta = m,
                 digest = None \<rparr>
      in tx \<lparr> digest := Some (transcript_digest sha enc tx) \<rparr>)"

definition validate_transcript_digest :: "sha256 \<Rightarrow> encoder \<Rightarrow> transcript \<Rightarrow> bool" where
  "validate_transcript_digest sha enc t =
     (case digest t of
        None \<Rightarrow> False
      | Some expected \<Rightarrow>
          if expected = [] then False
          else (let copy = t \<lparr> digest := None \<rparr>;
                    actual = transcript_digest sha enc copy
                in actual = expected))"

section \<open>\<^verbatim>\<open>verifier.py\<close>\<close>

record entry_report =
  r_idx :: "int option"
  r_source :: string
  opening_ok :: "bool option"
  residual_ok :: "bool option"
  computed_residual :: "rat option"

record report =
  digest_ok :: bool
  commit_checks :: "entry_report list"
  residual_checks :: "entry_report list"

text \<open>The local function \<^verbatim>\<open>eval_linear\<close> of \<^verbatim>\<open>Verifier.verify\<close>: a missing or \<^verbatim>\<open>None\<close> value is 0.\<close>

definition eval_linear :: "linear \<Rightarrow> mapping \<Rightarrow> rat" where
  "eval_linear lin assignment =
     foldl (\<lambda>s (var, coeff). s + coeff * (case map_of assignment var of
                                              None \<Rightarrow> 0 | Some None \<Rightarrow> 0 | Some (Some val) \<Rightarrow> val))
       0 lin"

text \<open>
  One iteration of the loop over the violation entries: the report of the entry and the
  new value of \<^verbatim>\<open>all_ok\<close>.
\<close>

definition verify_entry ::
  "sha256 \<Rightarrow> encoder \<Rightarrow> string option \<Rightarrow> constraint list \<Rightarrow> bool \<Rightarrow> entry \<Rightarrow> entry_report \<times> bool" where
  "verify_entry sha enc witness_top_commit cs all_ok e =
     (let residual_claim = (case residual e of None \<Rightarrow> 0 | Some r \<Rightarrow> r);
          src = (case source e of None \<Rightarrow> [] | Some s \<Rightarrow> s);
          entry_report = \<lparr> r_idx = idx e, r_source = src, opening_ok = None, residual_ok = None,
                           computed_residual = None \<rparr>
      in case e_opening e of
           None \<Rightarrow>
             if isclose residual_claim 0 REL_TOL ABS_TOL
             then (entry_report \<lparr> residual_ok := Some True \<rparr>, all_ok)
             else (entry_report \<lparr> residual_ok := Some False \<rparr>, False)
         | Some opn \<Rightarrow>
             (let commit_present = (case witness_top_commit of None \<Rightarrow> False | Some d \<Rightarrow> d \<noteq> []);
                  ok_commit = (case witness_top_commit of None \<Rightarrow> False
                               | Some d \<Rightarrow> verify_commit sha enc d opn);
                  entry_report1 = (if commit_present
                                   then entry_report \<lparr> opening_ok := Some ok_commit \<rparr>
                                   else entry_report \<lparr> opening_ok := None \<rparr>);
                  all_ok1 = (if commit_present \<and> \<not> ok_commit then False else all_ok);
                  opened_map = (case o_mapping opn of None \<Rightarrow> [] | Some m \<Rightarrow> m)
              in case idx e of
                   None \<Rightarrow>
                     (entry_report1 \<lparr> residual_ok := Some False, computed_residual := None \<rparr>, False)
                 | Some i \<Rightarrow>
                     if i < 0 \<or> i \<ge> int (length cs)
                     then (entry_report1 \<lparr> residual_ok := Some False, computed_residual := None \<rparr>,
                           False)
                     else (let c = cs ! nat i;
                               a_val = eval_linear (A_form c) opened_map;
                               b_val = eval_linear (B_form c) opened_map;
                               c_val = eval_linear (C_form c) opened_map;
                               computed = (a_val * b_val) - c_val;
                               rok = isclose computed residual_claim REL_TOL ABS_TOL
                           in (entry_report1 \<lparr> computed_residual := Some computed,
                                                residual_ok := Some rok \<rparr>,
                               if \<not> rok then False else all_ok1))))"

text \<open>The loop \<^verbatim>\<open>for entry in violations\<close>, threading \<^verbatim>\<open>all_ok\<close> and the list of reports.\<close>

fun verify_loop ::
  "sha256 \<Rightarrow> encoder \<Rightarrow> string option \<Rightarrow> constraint list \<Rightarrow> entry list
     \<Rightarrow> bool \<times> entry_report list \<Rightarrow> bool \<times> entry_report list" where
  "verify_loop sha enc wtc cs [] st = st"
| "verify_loop sha enc wtc cs (e # es) (all_ok, checks) =
     (case verify_entry sha enc wtc cs all_ok e of
        (rep, all_ok') \<Rightarrow> verify_loop sha enc wtc cs es (all_ok', checks @ [rep]))"

definition verify :: "sha256 \<Rightarrow> encoder \<Rightarrow> r1cs \<Rightarrow> transcript \<Rightarrow> bool \<times> report" where
  "verify sha enc r t =
     (let rep0 = \<lparr> digest_ok = False, commit_checks = [], residual_checks = [] \<rparr>
      in if \<not> validate_transcript_digest sha enc t
         then (False, rep0 \<lparr> digest_ok := False \<rparr>)
         else (let rep1 = rep0 \<lparr> digest_ok := True \<rparr>;
                   witness_commits = witness_commitments t;
                   witness_top_commit = map_of witness_commits ''WITNESS'';
                   cs = constraints r
               in case verify_loop sha enc witness_top_commit cs (violations t) (True, []) of
                    (all_ok, checks) \<Rightarrow> (all_ok, rep1 \<lparr> residual_checks := checks \<rparr>)))"

section \<open>\<^verbatim>\<open>prover.py\<close>\<close>

text \<open>
  The attributes that \<^verbatim>\<open>commit_witness\<close> stores on the prover. \<^verbatim>\<open>__init__\<close> sets none,
  and \<^verbatim>\<open>make_proof\<close> always commits first, so no earlier state is read.
\<close>

record prover =
  full_opening_nonce :: string
  full_commitment :: string
  per_var_openings :: "(string \<times> opening_obj) list"

text \<open>\<^verbatim>\<open>_ensure_one\<close> mutates the caller's witness; the model returns the witness after it.\<close>

definition ensure_one :: "witness \<Rightarrow> witness" where
  "ensure_one w = (if ''ONE'' \<in> set (map fst w) then w else w @ [(''ONE'', 1)])"

definition witness_mapping :: "witness \<Rightarrow> mapping" where
  "witness_mapping w = map (\<lambda>(k, v). (k, Some v)) w"

text \<open>
  \<^verbatim>\<open>commit_witness\<close>: \<open>nonces k\<close> is the nonce of the \<open>k\<close>-th call of \<^verbatim>\<open>commit_map\<close>.
  The result is the label-to-digest dictionary, the prover's attributes and the witness.
\<close>

definition commit_witness ::
  "sha256 \<Rightarrow> encoder \<Rightarrow> (nat \<Rightarrow> string) \<Rightarrow> witness
     \<Rightarrow> (string \<times> string) list \<times> prover \<times> witness" where
  "commit_witness sha enc nonces w0 =
     (let w = ensure_one w0;
          full = commit_map sha enc (nonces 0) (witness_mapping w);
          full_commit = fst full;
          full_nonce = snd full;
          per_var = map (\<lambda>(k, (var, val)).
                           (var, commit_map sha enc (nonces (Suc k)) [(var, Some val)]))
                      (enumerate 0 (sort_key fst w));
          st = \<lparr> full_opening_nonce = full_nonce,
                 full_commitment = full_commit,
                 per_var_openings =
                   map (\<lambda>(v, cn). (v, \<lparr> o_mapping = Some [(v, map_of w v)],
                                         o_nonce = Some (snd cn) \<rparr>)) per_var \<rparr>
      in (foldl (\<lambda>acc (v, cn). AList.update v (fst cn) acc) [(''WITNESS'', full_commit)] per_var,
          st, w))"

text \<open>
  The loop \<^verbatim>\<open>for idx in candidate_idxs\<close> of \<^verbatim>\<open>make_proof\<close>, which appends to \<^verbatim>\<open>entries\<close>.
  \<open>full_nonce\<close> is \<^verbatim>\<open>self._full_opening_nonce\<close>.
\<close>

fun make_proof_entries ::
  "string \<Rightarrow> constraint list \<Rightarrow> witness \<Rightarrow> int list \<Rightarrow> entry list \<Rightarrow> entry list" where
  "make_proof_entries full_nonce cs w [] entries = entries"
| "make_proof_entries full_nonce cs w (i # idxs) entries =
     (if i < 0 \<or> i \<ge> int (length cs) then make_proof_entries full_nonce cs w idxs entries
      else (let c = cs ! nat i;
                res = eval_constraint c w;
                is_zero = isclose res 0 REL_TOL ABS_TOL
            in if \<not> is_zero
               then (let supp = constraint_support c;
                         opening_map = map (\<lambda>v. (v, map_of w v)) supp;
                         opn = open_map opening_map full_nonce
                     in make_proof_entries full_nonce cs w idxs
                          (entries @ [\<lparr> idx = Some i, residual = Some res, e_opening = Some opn,
                                        source = Some (case c_source c of None \<Rightarrow> [] | Some s \<Rightarrow> s) \<rparr>]))
               else make_proof_entries full_nonce cs w idxs
                      (entries @ [\<lparr> idx = Some i, residual = Some 0, e_opening = None,
                                    source = Some (case c_source c of None \<Rightarrow> [] | Some s \<Rightarrow> s) \<rparr>])))"

text \<open>
  The local variables of \<^verbatim>\<open>make_proof\<close> when its loop has finished and \<^verbatim>\<open>meta\<close> is built:
  \<^verbatim>\<open>witness_commits\<close>, \<^verbatim>\<open>entries\<close> and \<^verbatim>\<open>meta\<close>.
\<close>

definition make_proof_locals ::
  "sha256 \<Rightarrow> encoder \<Rightarrow> (nat \<Rightarrow> string) \<Rightarrow> r1cs \<Rightarrow> witness \<Rightarrow> int list
     \<Rightarrow> (string \<times> string) list \<times> entry list \<times> (string \<times> json) list" where
  "make_proof_locals sha enc nonces r w0 candidate_idxs =
     (let w1 = ensure_one w0;
          committed = commit_witness sha enc nonces w1;
          witness_commits = fst committed;
          st = fst (snd committed);
          w = snd (snd committed);
          entries = make_proof_entries (full_opening_nonce st) (constraints r) w candidate_idxs [];
          meta_d = [(''candidate_count'', JInt (int (length candidate_idxs)))]
      in (witness_commits, entries, meta_d))"

text \<open>
  \<^verbatim>\<open>make_proof\<close>. Its last statement is
  \<^verbatim>\<open>tx = violation_iop.make_transcript(witness_commitments, entries, meta=meta)\<close>.
  The name \<^verbatim>\<open>witness_commitments\<close> is bound neither in the function (the local is
  \<^verbatim>\<open>witness_commits\<close>) nor in the module \<^verbatim>\<open>prover\<close> nor in the builtins, so evaluating the
  argument raises \<^verbatim>\<open>NameError\<close>. \<open>scope\<close> lists the dictionaries of commitments that a name
  of \<^verbatim>\<open>make_proof\<close> can refer to.
\<close>

definition make_proof ::
  "sha256 \<Rightarrow> encoder \<Rightarrow> (nat \<Rightarrow> string) \<Rightarrow> r1cs \<Rightarrow> witness \<Rightarrow> int list
     \<Rightarrow> py_error + transcript" where
  "make_proof sha enc nonces r w0 candidate_idxs =
     (case make_proof_locals sha enc nonces r w0 candidate_idxs of
        (witness_commits, entries, meta_d) \<Rightarrow>
          (let scope = [(''witness_commits'', witness_commits)]
           in case map_of scope ''witness_commitments'' of
                None \<Rightarrow> Inl (NameError ''witness_commitments'')
              | Some wcs \<Rightarrow> Inr (make_transcript sha enc wcs entries (Some meta_d))))"

section \<open>\<^verbatim>\<open>fingerprint.py\<close>\<close>

definition normalize_constraint_representation :: "(rat \<Rightarrow> string) \<Rightarrow> constraint \<Rightarrow> string" where
  "normalize_constraint_representation fmt c =
     (let part = (\<lambda>name entries.
                    name @ '':'' @ join '','' (map (\<lambda>(var, coeff). var @ ''='' @ fmt coeff)
                                                  (sort_key fst entries)));
          parts = [part ''A'' (A_form c), part ''B'' (B_form c), part ''C'' (C_form c)];
          parts1 = (case c_source c of None \<Rightarrow> parts | Some s \<Rightarrow> parts @ [''src:'' @ s])
      in join ''|'' parts1)"

text \<open>
  \<open>trunc\<close> is the parameter \<^verbatim>\<open>truncate\<close>: \<open>None\<close> for \<^verbatim>\<open>truncate=None\<close>; the default is
  \<open>Some 16\<close>.
\<close>

definition fingerprint_constraint ::
  "sha256 \<Rightarrow> (rat \<Rightarrow> string) \<Rightarrow> constraint \<Rightarrow> int option \<Rightarrow> string" where
  "fingerprint_constraint sha fmt c trunc =
     (let rep = normalize_constraint_representation fmt c;
          h = sha256_hexdigest sha rep
      in case trunc of None \<Rightarrow> h | Some n \<Rightarrow> slice_to h n)"

section \<open>\<^verbatim>\<open>slicer.py\<close>\<close>

definition score_constraint :: "(nat \<Rightarrow> rat) \<Rightarrow> constraint \<Rightarrow> rat" where
  "score_constraint log1p c =
     (let nz = constraint_nz_count c;
          supp = length (constraint_support c)
      in of_nat nz * (1 + log1p supp))"

record candidate =
  cand_idx :: nat
  score :: rat
  fingerprint :: string
  cand_summary :: summary
  cand_constraint :: constraint

text \<open>The loop over \<^verbatim>\<open>enumerate(constraints)\<close>, threading \<^verbatim>\<open>candidates\<close> and \<^verbatim>\<open>seen_fps\<close>.\<close>

fun slice_loop ::
  "sha256 \<Rightarrow> (rat \<Rightarrow> string) \<Rightarrow> (nat \<Rightarrow> rat) \<Rightarrow> bool \<Rightarrow> (nat \<times> constraint) list
     \<Rightarrow> candidate list \<times> string set \<Rightarrow> candidate list \<times> string set" where
  "slice_loop sha fmt log1p deduplicate [] st = st"
| "slice_loop sha fmt log1p deduplicate ((i, c) # rest) (candidates, seen_fps) =
     (let sc = score_constraint log1p c;
          fp = fingerprint_constraint sha fmt c (Some 16)
      in if deduplicate \<and> fp \<in> seen_fps
         then slice_loop sha fmt log1p deduplicate rest (candidates, seen_fps)
         else slice_loop sha fmt log1p deduplicate rest
                (candidates @ [\<lparr> cand_idx = i, score = sc, fingerprint = fp,
                                  cand_summary = constraint_summary c, cand_constraint = c \<rparr>],
                 insert fp seen_fps))"

text \<open>
  \<^verbatim>\<open>candidates.sort(key=..., reverse=True)\<close> is a stable sort in descending order of the
  score: candidates of equal score keep their order.
\<close>

definition slice_r1cs ::
  "sha256 \<Rightarrow> (rat \<Rightarrow> string) \<Rightarrow> (nat \<Rightarrow> rat) \<Rightarrow> r1cs \<Rightarrow> int \<Rightarrow> bool \<Rightarrow> candidate list" where
  "slice_r1cs sha fmt log1p r top_k deduplicate =
     (let candidates = fst (slice_loop sha fmt log1p deduplicate (enumerate 0 (constraints r))
                              ([], {}))
      in slice_to (sort_key (\<lambda>x. - score x) candidates) top_k)"

section \<open>The calibration scenario\<close>

text \<open>The R1CS and the witness of Scenario A (the demo of \<^verbatim>\<open>prover.py\<close>).\<close>

definition scenario_r1cs :: r1cs where
  "scenario_r1cs =
     \<lparr> variables = [(''ONE'', 0), (''a'', 1), (''b'', 2), (''c'', 3)],
       constraints =
         [\<lparr> A_form = [(''a'', 1)], B_form = [(''b'', 1)], C_form = [(''c'', 1)],
            c_source = Some ''c <== a * b;'' \<rparr>,
          \<lparr> A_form = [(''a'', 1), (''b'', 1)], B_form = [(''ONE'', 1)], C_form = [(''d'', 1)],
            c_source = Some ''d <== a + b;'' \<rparr>] \<rparr>"

definition scenario_witness :: witness where
  "scenario_witness = [(''ONE'', 1), (''a'', 3), (''b'', 4), (''c'', 12)]"

section \<open>Predicates used in the statements\<close>

text \<open>A report entry passes: its residual check is true and its opening check is not false.\<close>

definition entry_passes :: "entry_report \<Rightarrow> bool" where
  "entry_passes rep = (residual_ok rep = Some True \<and> opening_ok rep \<noteq> Some False)"

text \<open>
  The entry that section 4.4 of the specification prescribes for an in-range index \<open>i\<close>,
  written from the specification's words: zero within the tolerances gives
  \<^verbatim>\<open>{idx, residual: 0.0, opening: null, source}\<close>, anything else gives the residual and an
  opening of the witness over the support of the constraint, under the nonce \<open>n\<close>.
\<close>

definition entry_of :: "string \<Rightarrow> constraint list \<Rightarrow> witness \<Rightarrow> int \<Rightarrow> entry" where
  "entry_of n cs w i =
     (let c = cs ! nat i;
          res = eval_constraint c w
      in if isclose res 0 (1 / 10 ^ 9) (1 / 10 ^ 12)
         then \<lparr> idx = Some i, residual = Some 0, e_opening = None,
                source = Some (case c_source c of None \<Rightarrow> [] | Some s \<Rightarrow> s) \<rparr>
         else \<lparr> idx = Some i, residual = Some res,
                e_opening = Some \<lparr> o_mapping = Some (map (\<lambda>v. (v, map_of w v))
                                                      (constraint_support c)),
                                    o_nonce = Some n \<rparr>,
                source = Some (case c_source c of None \<Rightarrow> [] | Some s \<Rightarrow> s) \<rparr>)"

text \<open>
  Two transcripts have the same content: the same commitments and meta data as dictionaries
  and, entry by entry, the same index, residual, source and opening (the same nonce and the
  same mapping as a dictionary). The order in which a dictionary lists its keys is not
  content.
\<close>

definition opening_same :: "opening_obj \<Rightarrow> opening_obj \<Rightarrow> bool" where
  "opening_same a b =
     (o_nonce a = o_nonce b \<and> rel_option (\<lambda>x y. set x = set y) (o_mapping a) (o_mapping b))"

definition entry_same :: "entry \<Rightarrow> entry \<Rightarrow> bool" where
  "entry_same a b =
     (idx a = idx b \<and> residual a = residual b \<and> source a = source b
      \<and> rel_option opening_same (e_opening a) (e_opening b))"

definition same_content ::
  "(string \<times> string) list \<Rightarrow> entry list \<Rightarrow> (string \<times> json) list
     \<Rightarrow> (string \<times> string) list \<Rightarrow> entry list \<Rightarrow> (string \<times> json) list \<Rightarrow> bool" where
  "same_content wcs es m wcs' es' m' =
     (set wcs = set wcs' \<and> list_all2 entry_same es es'
      \<and> sort_keys (JDict m) = sort_keys (JDict m'))"

text \<open>
  An injective encoder and a hash function without a second preimage of one given
  serialisation. They are not the library's: they show that the assumptions of the
  tamper-evidence theorem can be met together.
\<close>

definition unary_encoder :: encoder where
  "unary_encoder j = replicate (to_nat j) CHR ''1''"

definition witness_sha :: sha256 where
  "witness_sha s =
     (if s = json_dumps unary_encoder (transcript_json
               \<lparr> witness_commitments = [],
                 violations = [\<lparr> idx = Some 1, residual = Some 7, e_opening = None,
                                 source = None \<rparr>],
                 meta = [], digest = None \<rparr>)
      then 0 else 1)"

section \<open>Auxiliary facts\<close>

lemma hexdigest_length: "length (hexdigest w) = 64"
  by (simp add: hexdigest_def)

lemma hexdigest_nonempty: "hexdigest w \<noteq> []"
  using hexdigest_length [of w] by auto

lemma isclose_zero: "isclose a 0 REL_TOL ABS_TOL \<longleftrightarrow> \<bar>a\<bar> \<le> 1 / 10 ^ 12"
proof -
  have "\<bar>1 / 10 ^ 9 * a\<bar> = \<bar>a\<bar> / 10 ^ 9"
    by (simp add: abs_mult)
  then show ?thesis
    unfolding isclose_def REL_TOL_def ABS_TOL_def by auto
qed

subsection \<open>The transcript digest\<close>

lemma validate_make_transcript:
  "validate_transcript_digest sha enc (make_transcript sha enc wcs es m)"
  by (simp add: validate_transcript_digest_def make_transcript_def Let_def transcript_digest_def
      sha256_hexdigest_def hexdigest_nonempty)

lemma validate_mutated:
  "validate_transcript_digest sha enc
      ((make_transcript sha enc wcs es m)
         \<lparr> witness_commitments := wcs', violations := es', meta := m' \<rparr>)
     = (transcript_digest sha enc
          \<lparr> witness_commitments = wcs', violations = es', meta = m', digest = None \<rparr>
        = transcript_digest sha enc
          \<lparr> witness_commitments = wcs, violations = es,
            meta = (case m of None \<Rightarrow> [] | Some x \<Rightarrow> x), digest = None \<rparr>)"
  by (simp add: validate_transcript_digest_def make_transcript_def Let_def transcript_digest_def
      sha256_hexdigest_def hexdigest_nonempty)

subsection \<open>The verifier's loop\<close>

lemma verify_entry_fst:
  "fst (verify_entry sha enc wtc cs all_ok e) = fst (verify_entry sha enc wtc cs True e)"
  by (simp add: verify_entry_def Let_def split: option.splits)

lemma verify_entry_snd:
  "snd (verify_entry sha enc wtc cs all_ok e)
     = (all_ok \<and> entry_passes (fst (verify_entry sha enc wtc cs True e)))"
  by (auto simp add: verify_entry_def Let_def entry_passes_def split: option.splits)

lemma verify_loop_eq:
  "verify_loop sha enc wtc cs es (all_ok, checks)
     = (all_ok \<and> list_all entry_passes (map (\<lambda>e. fst (verify_entry sha enc wtc cs True e)) es),
        checks @ map (\<lambda>e. fst (verify_entry sha enc wtc cs True e)) es)"
proof (induction es arbitrary: all_ok checks)
  case Nil
  then show ?case by simp
next
  case (Cons e es)
  obtain rep ok' where v: "verify_entry sha enc wtc cs all_ok e = (rep, ok')"
    by (cases "verify_entry sha enc wtc cs all_ok e")
  have r: "rep = fst (verify_entry sha enc wtc cs True e)"
    using v verify_entry_fst [of sha enc wtc cs all_ok e] by simp
  have o: "ok' = (all_ok \<and> entry_passes (fst (verify_entry sha enc wtc cs True e)))"
    using v verify_entry_snd [of sha enc wtc cs all_ok e] by simp
  show ?case
    using Cons.IH [of ok' "checks @ [rep]"] v r o by auto
qed

lemma verify_valid:
  "validate_transcript_digest sha enc t \<Longrightarrow>
   verify sha enc r t =
     (list_all entry_passes
        (map (\<lambda>e. fst (verify_entry sha enc (map_of (witness_commitments t) ''WITNESS'')
                         (constraints r) True e)) (violations t)),
      \<lparr> digest_ok = True, commit_checks = [],
        residual_checks =
          map (\<lambda>e. fst (verify_entry sha enc (map_of (witness_commitments t) ''WITNESS'')
                         (constraints r) True e)) (violations t) \<rparr>)"
  by (simp add: verify_def Let_def verify_loop_eq)

lemma verify_invalid:
  "\<not> validate_transcript_digest sha enc t \<Longrightarrow>
   verify sha enc r t = (False, \<lparr> digest_ok = False, commit_checks = [], residual_checks = [] \<rparr>)"
  by (simp add: verify_def Let_def)

lemma verify_entry_opening_ok:
  "opening_ok (fst (verify_entry sha enc wtc cs all_ok e))
     = (case e_opening e of
          None \<Rightarrow> None
        | Some opn \<Rightarrow>
            (case wtc of
               None \<Rightarrow> None
             | Some d \<Rightarrow> if d = [] then None else Some (verify_commit sha enc d opn)))"
  by (simp add: verify_entry_def Let_def split: option.splits)

lemma verify_entry_null_opening:
  "e_opening e = None \<Longrightarrow>
   fst (verify_entry sha enc wtc cs all_ok e)
     = \<lparr> r_idx = idx e, r_source = (case source e of None \<Rightarrow> [] | Some s \<Rightarrow> s),
         opening_ok = None,
         residual_ok = Some (isclose (case residual e of None \<Rightarrow> 0 | Some x \<Rightarrow> x) 0
                               REL_TOL ABS_TOL),
         computed_residual = None \<rparr>"
  by (simp add: verify_entry_def Let_def)

lemma verify_entry_out_of_range:
  assumes "e_opening e = Some opn"
    and "case idx e of None \<Rightarrow> True | Some i \<Rightarrow> i < 0 \<or> int (length cs) \<le> i"
  shows "residual_ok (fst (verify_entry sha enc wtc cs all_ok e)) = Some False"
    and "computed_residual (fst (verify_entry sha enc wtc cs all_ok e)) = None"
    and "r_idx (fst (verify_entry sha enc wtc cs all_ok e)) = idx e"
  using assms by (auto simp add: verify_entry_def Let_def split: option.splits)

subsection \<open>The prover's loop\<close>

lemma ensure_one_idem: "ensure_one (ensure_one w) = ensure_one w"
  by (simp add: ensure_one_def)

lemma commit_witness_state:
  "full_opening_nonce (fst (snd (commit_witness sha enc nonces w))) = nonces 0"
  "full_commitment (fst (snd (commit_witness sha enc nonces w)))
     = fst (commit_map sha enc (nonces 0) (witness_mapping (ensure_one w)))"
  "snd (snd (commit_witness sha enc nonces w)) = ensure_one w"
  by (simp_all add: commit_witness_def Let_def commit_map_def)

lemma make_proof_entries_acc:
  "make_proof_entries n cs w idxs acc = acc @ make_proof_entries n cs w idxs []"
proof (induction idxs arbitrary: acc)
  case Nil
  then show ?case by simp
next
  case (Cons i idxs)
  have ih: "make_proof_entries n cs w idxs a = a @ make_proof_entries n cs w idxs []" for a
    by (rule Cons.IH)
  show ?case
    using ih [of acc] ih [of "acc @ [x]" for x] ih [of "[x]" for x]
    by (simp add: Let_def)
qed

lemma make_proof_entries_filter:
  "make_proof_entries n cs w idxs acc
     = make_proof_entries n cs w (filter (\<lambda>i. 0 \<le> i \<and> i < int (length cs)) idxs) acc"
  by (induction idxs arbitrary: acc) (auto simp add: Let_def)

lemma make_proof_entries_idx:
  "list_all (\<lambda>e. case idx e of None \<Rightarrow> False | Some i \<Rightarrow> 0 \<le> i \<and> i < int (length cs)) acc \<Longrightarrow>
   list_all (\<lambda>e. case idx e of None \<Rightarrow> False | Some i \<Rightarrow> 0 \<le> i \<and> i < int (length cs))
     (make_proof_entries n cs w idxs acc)"
  by (induction idxs arbitrary: acc) (auto simp add: Let_def)

lemma make_proof_entries_map:
  "make_proof_entries n cs w idxs [] =
     map (entry_of n cs w) (filter (\<lambda>i. 0 \<le> i \<and> i < int (length cs)) idxs)"
proof (induction idxs)
  case Nil
  then show ?case by simp
next
  case (Cons i idxs)
  have acc: "make_proof_entries n cs w idxs [x] = x # make_proof_entries n cs w idxs []" for x
    using make_proof_entries_acc [of n cs w idxs "[x]"] by simp
  show ?case
    using Cons.IH
    by (auto simp add: Let_def acc entry_of_def open_map_def REL_TOL_def ABS_TOL_def)
qed


section \<open>The verifier's verdict\<close>

text \<open>
  Claim C1. For a transcript whose digest validates, \<^verbatim>\<open>Verifier.verify\<close> accepts if and
  only if every report entry has \<open>residual_ok\<close> true and none has \<open>opening_ok\<close> false; the
  report has \<open>digest_ok\<close> true and, entry by entry, \<open>opening_ok\<close> is null when the opening is
  absent or when there is no (non-empty) \<^verbatim>\<open>WITNESS\<close> commitment, and the result of
  \<^verbatim>\<open>verify_commit\<close> otherwise; a null \<open>opening_ok\<close> therefore never blocks acceptance. When
  the digest does not validate, the result is \<open>False\<close> with \<open>digest_ok\<close> false and no entry
  reports.
\<close>

theorem verify_accepted_iff:
  "if validate_transcript_digest sha enc t
   then fst (verify sha enc r t)
          = list_all (\<lambda>rep. residual_ok rep = Some True \<and> opening_ok rep \<noteq> Some False)
              (residual_checks (snd (verify sha enc r t)))
        \<and> digest_ok (snd (verify sha enc r t))
        \<and> list_all2
            (\<lambda>e rep. opening_ok rep =
               (case e_opening e of
                  None \<Rightarrow> None
                | Some opn \<Rightarrow>
                    (case map_of (witness_commitments t) ''WITNESS'' of
                       None \<Rightarrow> None
                     | Some d \<Rightarrow> if d = [] then None else Some (verify_commit sha enc d opn))))
            (violations t) (residual_checks (snd (verify sha enc r t)))
   else verify sha enc r t
          = (False, \<lparr> digest_ok = False, commit_checks = [], residual_checks = [] \<rparr>)"
proof (cases "validate_transcript_digest sha enc t")
  case True
  have e: "entry_passes = (\<lambda>rep. residual_ok rep = Some True \<and> opening_ok rep \<noteq> Some False)"
    by (rule ext) (simp add: entry_passes_def)
  show ?thesis
    using True
    by (simp add: verify_valid e list_all2_map2 list_all2_same verify_entry_opening_ok)
next
  case False
  then show ?thesis by (simp add: verify_invalid)
qed

section \<open>The prover\<close>

text \<open>
  Claim C2. On the inputs of Scenario A, \<^verbatim>\<open>make_proof\<close> with the indices \<open>[0, 1]\<close> does not
  produce a transcript: its loop builds the two entries that the claim describes
  (entry 0 with residual 0 and no opening, entry 1 with residual 7 and an opening over
  \<open>a\<close>, \<open>b\<close>, \<open>ONE\<close>, \<open>d\<close>), and the call of \<^verbatim>\<open>make_transcript\<close> that follows raises
  \<^verbatim>\<open>NameError\<close>, so there is nothing to hand to the verifier.
\<close>

theorem make_proof_scenario_raises:
  "make_proof sha enc nonces scenario_r1cs scenario_witness [0, 1]
     = Inl (NameError ''witness_commitments'')
   \<and> fst (snd (make_proof_locals sha enc nonces scenario_r1cs scenario_witness [0, 1]))
     = [\<lparr> idx = Some 0, residual = Some 0, e_opening = None, source = Some ''c <== a * b;'' \<rparr>,
        \<lparr> idx = Some 1, residual = Some 7,
          e_opening = Some \<lparr> o_mapping = Some [(''a'', Some 3), (''b'', Some 4),
                                                (''ONE'', Some 1), (''d'', None)],
                              o_nonce = Some (nonces 0) \<rparr>,
          source = Some ''d <== a + b;'' \<rparr>]"
proof
  show "make_proof sha enc nonces scenario_r1cs scenario_witness [0, 1]
     = Inl (NameError ''witness_commitments'')"
    by (simp add: make_proof_def split: prod.splits)
  show "fst (snd (make_proof_locals sha enc nonces scenario_r1cs scenario_witness [0, 1]))
     = [\<lparr> idx = Some 0, residual = Some 0, e_opening = None, source = Some ''c <== a * b;'' \<rparr>,
        \<lparr> idx = Some 1, residual = Some 7,
          e_opening = Some \<lparr> o_mapping = Some [(''a'', Some 3), (''b'', Some 4),
                                                (''ONE'', Some 1), (''d'', None)],
                              o_nonce = Some (nonces 0) \<rparr>,
          source = Some ''d <== a + b;'' \<rparr>]"
    by (simp add: make_proof_locals_def Let_def commit_witness_state ensure_one_idem
        make_proof_entries_map entry_of_def scenario_r1cs_def scenario_witness_def ensure_one_def
        eval_constraint_def eval_linear_form_def isclose_def constraint_support_def)
qed


text \<open>
  Claim C6, as amended. The loop of \<^verbatim>\<open>make_proof\<close> skips every candidate index that is
  negative or not less than the number of constraints: the entries are those of the in-range
  candidates alone. \<^verbatim>\<open>Verifier.verify\<close>, on a transcript whose digest validates, fails an
  entry that carries an opening and whose \<open>idx\<close> is missing, negative or not less than
  the number of constraints (\<open>residual_ok\<close> false, no computed residual), rejects the
  transcript, and still reports on every entry. An entry without an opening is not
  bounds-checked.
\<close>

theorem out_of_range_index:
  assumes "validate_transcript_digest sha enc t"
    and "k < length (violations t)"
    and "e_opening (violations t ! k) = Some opn"
    and "case idx (violations t ! k) of None \<Rightarrow> True
         | Some i \<Rightarrow> i < 0 \<or> int (length (constraints r)) \<le> i"
  shows "make_proof_entries n cs w idxs []
           = make_proof_entries n cs w (filter (\<lambda>i. 0 \<le> i \<and> i < int (length cs)) idxs) []
    \<and> list_all (\<lambda>e. case idx e of None \<Rightarrow> False | Some i \<Rightarrow> 0 \<le> i \<and> i < int (length cs))
         (make_proof_entries n cs w idxs [])
    \<and> \<not> fst (verify sha enc r t)
    \<and> length (residual_checks (snd (verify sha enc r t))) = length (violations t)
    \<and> r_idx (residual_checks (snd (verify sha enc r t)) ! k) = idx (violations t ! k)
    \<and> residual_ok (residual_checks (snd (verify sha enc r t)) ! k) = Some False
    \<and> computed_residual (residual_checks (snd (verify sha enc r t)) ! k) = None"
proof -
  let ?f = "\<lambda>e. fst (verify_entry sha enc (map_of (witness_commitments t) ''WITNESS'')
                         (constraints r) True e)"
  have "\<not> entry_passes (?f (violations t ! k))"
    using verify_entry_out_of_range(1) [OF assms(3,4)] by (simp add: entry_passes_def)
  then have "\<not> list_all entry_passes (map ?f (violations t))"
    using assms(2) by (auto simp add: list_all_iff)
  then show ?thesis
    using assms(2) verify_entry_out_of_range [OF assms(3,4)]
      make_proof_entries_filter [of n cs w idxs "[]"] make_proof_entries_idx [of cs "[]" n w idxs]
    by (simp add: verify_valid [OF assms(1)])
qed

theorem out_of_range_index_witness:
  "\<forall>sha enc.
     validate_transcript_digest sha enc
       (make_transcript sha enc []
          [\<lparr> idx = Some 7, residual = Some 0,
             e_opening = Some \<lparr> o_mapping = Some [], o_nonce = Some ''00'' \<rparr>, source = None \<rparr>,
           \<lparr> idx = Some 0, residual = Some 0, e_opening = None, source = None \<rparr>] None)
   \<and> make_proof_entries ''00'' (constraints scenario_r1cs) scenario_witness [7, 0, - 1] []
       = make_proof_entries ''00'' (constraints scenario_r1cs) scenario_witness [0] []
   \<and> \<not> fst (verify sha enc scenario_r1cs
       (make_transcript sha enc []
          [\<lparr> idx = Some 7, residual = Some 0,
             e_opening = Some \<lparr> o_mapping = Some [], o_nonce = Some ''00'' \<rparr>, source = None \<rparr>,
           \<lparr> idx = Some 0, residual = Some 0, e_opening = None, source = None \<rparr>] None))
   \<and> length (residual_checks (snd (verify sha enc scenario_r1cs
       (make_transcript sha enc []
          [\<lparr> idx = Some 7, residual = Some 0,
             e_opening = Some \<lparr> o_mapping = Some [], o_nonce = Some ''00'' \<rparr>, source = None \<rparr>,
           \<lparr> idx = Some 0, residual = Some 0, e_opening = None, source = None \<rparr>] None)))) = 2"
proof (intro allI)
  fix sha :: sha256 and enc :: encoder
  let ?t = "make_transcript sha enc []
          [\<lparr> idx = Some 7, residual = Some 0,
             e_opening = Some \<lparr> o_mapping = Some [], o_nonce = Some ''00'' \<rparr>, source = None \<rparr>,
           \<lparr> idx = Some 0, residual = Some 0, e_opening = None, source = None \<rparr>] None"
  have v: "validate_transcript_digest sha enc ?t"
    by (rule validate_make_transcript)
  have vs: "violations ?t = [\<lparr> idx = Some 7, residual = Some 0,
             e_opening = Some \<lparr> o_mapping = Some [], o_nonce = Some ''00'' \<rparr>, source = None \<rparr>,
           \<lparr> idx = Some 0, residual = Some 0, e_opening = None, source = None \<rparr>]"
    by (simp add: make_transcript_def Let_def)
  have k: "0 < length (violations ?t)"
    by (simp add: vs)
  have o: "e_opening (violations ?t ! 0) = Some \<lparr> o_mapping = Some [], o_nonce = Some ''00'' \<rparr>"
    by (simp add: vs)
  have i: "case idx (violations ?t ! 0) of None \<Rightarrow> True
         | Some i \<Rightarrow> i < 0 \<or> int (length (constraints scenario_r1cs)) \<le> i"
    by (simp add: vs scenario_r1cs_def)
  have f: "filter (\<lambda>i. 0 \<le> i \<and> i < int (length (constraints scenario_r1cs))) [7, 0, - 1] = [0]"
    by (simp add: scenario_r1cs_def)
  show "validate_transcript_digest sha enc ?t
   \<and> make_proof_entries ''00'' (constraints scenario_r1cs) scenario_witness [7, 0, - 1] []
       = make_proof_entries ''00'' (constraints scenario_r1cs) scenario_witness [0] []
   \<and> \<not> fst (verify sha enc scenario_r1cs ?t)
   \<and> length (residual_checks (snd (verify sha enc scenario_r1cs ?t))) = 2"
  proof -
    note th = out_of_range_index [OF v k o i, of "''00''" "constraints scenario_r1cs"
        scenario_witness "[7, 0, - 1]"]
    have a: "make_proof_entries ''00'' (constraints scenario_r1cs) scenario_witness [7, 0, - 1] []
       = make_proof_entries ''00'' (constraints scenario_r1cs) scenario_witness [0] []"
      using th unfolding f by blast
    have b: "\<not> fst (verify sha enc scenario_r1cs ?t)"
      using th by blast
    have "length (residual_checks (snd (verify sha enc scenario_r1cs ?t))) = length (violations ?t)"
      using th by blast
    then have c: "length (residual_checks (snd (verify sha enc scenario_r1cs ?t))) = 2"
      by (simp add: vs)
    show ?thesis
      using v a b c by blast
  qed
qed

text \<open>
  Claim C6 as stated fails: an entry without an opening and with the index 7, out of range
  of the two constraints of the scenario, is reported with \<open>residual_ok\<close> true, and the
  transcript is accepted.
\<close>

theorem out_of_range_null_opening_accepted:
  "\<forall>sha enc.
     verify sha enc scenario_r1cs
       (make_transcript sha enc []
          [\<lparr> idx = Some 7, residual = Some 0, e_opening = None, source = None \<rparr>] None)
     = (True, \<lparr> digest_ok = True, commit_checks = [],
               residual_checks = [\<lparr> r_idx = Some 7, r_source = [], opening_ok = None,
                                    residual_ok = Some True, computed_residual = None \<rparr>] \<rparr>)"
proof (intro allI)
  fix sha :: sha256 and enc :: encoder
  let ?t = "make_transcript sha enc []
          [\<lparr> idx = Some 7, residual = Some 0, e_opening = None, source = None \<rparr>] None"
  have v: "validate_transcript_digest sha enc ?t"
    by (rule validate_make_transcript)
  have "violations ?t = [\<lparr> idx = Some 7, residual = Some 0, e_opening = None, source = None \<rparr>]"
    by (simp add: make_transcript_def Let_def)
  then show "verify sha enc scenario_r1cs ?t
     = (True, \<lparr> digest_ok = True, commit_checks = [],
               residual_checks = [\<lparr> r_idx = Some 7, r_source = [], opening_ok = None,
                                    residual_ok = Some True, computed_residual = None \<rparr>] \<rparr>)"
    by (simp add: verify_valid [OF v] verify_entry_null_opening isclose_zero entry_passes_def)
qed

text \<open>
  Claim C10. On a transcript whose digest validates and whose entries all have a null
  opening and a claimed residual within tolerance of zero, \<^verbatim>\<open>Verifier.verify\<close> accepts and
  reports every entry with \<open>residual_ok\<close> true, no computed residual and the entry's own
  \<open>idx\<close>, whatever that index is: negative, out of range or missing.
\<close>

theorem null_opening_entries_accepted:
  assumes "validate_transcript_digest sha enc t"
    and "list_all (\<lambda>e. e_opening e = None
            \<and> isclose (case residual e of None \<Rightarrow> 0 | Some x \<Rightarrow> x) 0 REL_TOL ABS_TOL)
           (violations t)"
  shows "fst (verify sha enc r t)
    \<and> residual_checks (snd (verify sha enc r t))
        = map (\<lambda>e. \<lparr> r_idx = idx e, r_source = (case source e of None \<Rightarrow> [] | Some s \<Rightarrow> s),
                      opening_ok = None, residual_ok = Some True, computed_residual = None \<rparr>)
            (violations t)"
proof -
  have "fst (verify_entry sha enc wtc cs True e)
      = \<lparr> r_idx = idx e, r_source = (case source e of None \<Rightarrow> [] | Some s \<Rightarrow> s),
                      opening_ok = None, residual_ok = Some True, computed_residual = None \<rparr>"
    if "e \<in> set (violations t)" for e wtc cs
    using that assms(2) by (simp add: list_all_iff verify_entry_null_opening)
  then show ?thesis
    using assms(1) by (simp add: verify_valid list_all_iff entry_passes_def cong: map_cong)
qed

theorem null_opening_entries_accepted_witness:
  "\<forall>sha enc.
     validate_transcript_digest sha enc
       (make_transcript sha enc []
          [\<lparr> idx = Some (- 3), residual = Some 0, e_opening = None, source = None \<rparr>,
           \<lparr> idx = Some 99, residual = Some (1 / 10 ^ 13), e_opening = None, source = None \<rparr>,
           \<lparr> idx = None, residual = None, e_opening = None, source = None \<rparr>] None)
   \<and> fst (verify sha enc scenario_r1cs
       (make_transcript sha enc []
          [\<lparr> idx = Some (- 3), residual = Some 0, e_opening = None, source = None \<rparr>,
           \<lparr> idx = Some 99, residual = Some (1 / 10 ^ 13), e_opening = None, source = None \<rparr>,
           \<lparr> idx = None, residual = None, e_opening = None, source = None \<rparr>] None))"
proof (intro allI)
  fix sha :: sha256 and enc :: encoder
  let ?t = "make_transcript sha enc []
          [\<lparr> idx = Some (- 3), residual = Some 0, e_opening = None, source = None \<rparr>,
           \<lparr> idx = Some 99, residual = Some (1 / 10 ^ 13), e_opening = None, source = None \<rparr>,
           \<lparr> idx = None, residual = None, e_opening = None, source = None \<rparr>] None"
  have v: "validate_transcript_digest sha enc ?t"
    by (rule validate_make_transcript)
  have l: "list_all (\<lambda>e. e_opening e = None
            \<and> isclose (case residual e of None \<Rightarrow> 0 | Some x \<Rightarrow> x) 0 REL_TOL ABS_TOL)
           (violations ?t)"
    by (simp add: make_transcript_def Let_def isclose_zero)
  show "validate_transcript_digest sha enc ?t \<and> fst (verify sha enc scenario_r1cs ?t)"
    using v null_opening_entries_accepted [OF v l, of scenario_r1cs] by simp
qed

section \<open>The transcript digest as tamper evidence\<close>

text \<open>The canonical serialisation determines the content, field by field.\<close>

lemma inj_unary_encoder: "inj unary_encoder"
  by (auto simp add: inj_on_def unary_encoder_def)

lemma hexdigest_0_1: "hexdigest 1 \<noteq> hexdigest 0"
proof
  assume "hexdigest 1 = hexdigest 0"
  then have "hexdigest 1 ! 63 = hexdigest 0 ! 63" by simp
  then show False
    by (simp add: hexdigest_def hexchar_def)
qed

lemma sort_key_eq_set: "sort_key f xs = sort_key f ys \<Longrightarrow> set xs = set ys"
  by (metis set_sort)

lemma mapping_json_canonical:
  assumes "sort_keys (mapping_json m) = sort_keys (mapping_json m')"
  shows "set m = set m'"
proof -
  let ?h = "\<lambda>p :: string \<times> rat option.
    (fst p, case snd p of None \<Rightarrow> JNull | Some x \<Rightarrow> JNum x)"
  have inj: "inj ?h"
    by (auto simp add: inj_on_def split: option.splits)
  have heq: "(\<lambda>(k, v). (k, sort_keys v)) \<circ> (\<lambda>(k, v). (k, case v of None \<Rightarrow> JNull | Some x \<Rightarrow> JNum x))
      = ?h"
    by (auto simp add: fun_eq_iff split: option.splits)
  have "sort_key fst (map ?h m) = sort_key fst (map ?h m')"
    using assms by (simp add: mapping_json_def heq)
  then have "?h ` set m = ?h ` set m'"
    using sort_key_eq_set [of fst "map ?h m" "map ?h m'"] by simp
  then show ?thesis
    using inj by (simp add: inj_image_eq_iff)
qed

lemma opening_json_canonical:
  assumes "sort_keys (opening_json a) = sort_keys (opening_json b)"
  shows "opening_same a b"
  using assms
  by (cases "o_mapping a"; cases "o_mapping b"; cases "o_nonce a"; cases "o_nonce b")
     (auto simp add: opening_json_def opening_same_def dest: mapping_json_canonical)

lemma opening_json_not_null:
  "sort_keys (opening_json a) \<noteq> JNull" "JNull \<noteq> sort_keys (opening_json a)"
  by (simp_all add: opening_json_def)

lemma entry_json_canonical:
  assumes "sort_keys (entry_json a) = sort_keys (entry_json b)"
  shows "entry_same a b"
  using assms
  by (cases "idx a"; cases "idx b"; cases "residual a"; cases "residual b";
      cases "source a"; cases "source b"; cases "e_opening a"; cases "e_opening b")
     (auto simp add: entry_json_def entry_same_def opening_json_not_null
        dest: opening_json_canonical)

lemma entries_canonical:
  assumes "map (\<lambda>e. sort_keys (entry_json e)) es = map (\<lambda>e. sort_keys (entry_json e)) es'"
  shows "list_all2 entry_same es es'"
proof -
  have "list_all2 (\<lambda>a b. sort_keys (entry_json a) = sort_keys (entry_json b)) es es'"
    using assms by (simp add: list.rel_eq [symmetric] list.rel_map del: list.rel_eq)
  then show ?thesis
    by (rule list_all2_mono) (rule entry_json_canonical)
qed

lemma commitments_canonical:
  assumes "sort_key fst (map (\<lambda>p. (fst p, JStr (snd p))) wcs)
         = sort_key fst (map (\<lambda>p. (fst p, JStr (snd p))) wcs')"
  shows "set wcs = set (wcs' :: (string \<times> string) list)"
proof -
  have "inj (\<lambda>p :: string \<times> string. (fst p, JStr (snd p)))"
    by (auto simp add: inj_on_def)
  moreover have "(\<lambda>p. (fst p, JStr (snd p))) ` set wcs = (\<lambda>p. (fst p, JStr (snd p))) ` set wcs'"
    using sort_key_eq_set [OF assms] by simp
  ultimately show ?thesis
    by (simp add: inj_image_eq_iff)
qed

lemma transcript_json_canonical:
  assumes "sort_keys (transcript_json
             \<lparr> witness_commitments = wcs, violations = es, meta = m, digest = None \<rparr>)
         = sort_keys (transcript_json
             \<lparr> witness_commitments = wcs', violations = es', meta = m', digest = None \<rparr>)"
  shows "same_content wcs es m wcs' es' m'"
proof -
  have heq: "(\<lambda>x :: string \<times> string. case case x of (k, d) \<Rightarrow> (k, JStr d) of
                (k, v) \<Rightarrow> (k, sort_keys v))
      = (\<lambda>p. (fst p, JStr (snd p)))"
    by (auto simp add: fun_eq_iff)
  have a: "sort_key fst (map (\<lambda>p. (fst p, JStr (snd p))) wcs)
         = sort_key fst (map (\<lambda>p. (fst p, JStr (snd p))) wcs')"
    and b: "map (\<lambda>e. sort_keys (entry_json e)) es = map (\<lambda>e. sort_keys (entry_json e)) es'"
    and c: "sort_keys (JDict m) = sort_keys (JDict m')"
    using assms by (simp_all add: transcript_json_def heq comp_def)
  show ?thesis
    using commitments_canonical [OF a] entries_canonical [OF b] c
    by (simp add: same_content_def)
qed

text \<open>
  Claim C4. \<^verbatim>\<open>validate_transcript_digest\<close> is true on the transcript that
  \<^verbatim>\<open>make_transcript\<close> returns. When the encoder is injective and no other string has the
  SHA-256 hex digest of the original serialisation (collision resistance, which the
  specification assumes of the hash), replacing the commitments, the entries and the meta
  data by any content that differs from the original in some field (a commitment digest, an
  index, a residual, a source, a nonce, a value of an opening mapping, a meta entry), the
  digest kept, makes \<^verbatim>\<open>validate_transcript_digest\<close> false.
\<close>

theorem transcript_digest_tamper_evidence:
  "validate_transcript_digest sha enc (make_transcript sha enc wcs es marg)
   \<and> (inj enc
        \<and> (\<forall>s. sha256_hexdigest sha s
                   = sha256_hexdigest sha (json_dumps enc (transcript_json
                       \<lparr> witness_commitments = wcs, violations = es,
                         meta = (case marg of None \<Rightarrow> [] | Some x \<Rightarrow> x), digest = None \<rparr>))
                 \<longrightarrow> s = json_dumps enc (transcript_json
                       \<lparr> witness_commitments = wcs, violations = es,
                         meta = (case marg of None \<Rightarrow> [] | Some x \<Rightarrow> x), digest = None \<rparr>))
        \<and> \<not> same_content wcs es (case marg of None \<Rightarrow> [] | Some x \<Rightarrow> x) wcs' es' m'
      \<longrightarrow> \<not> validate_transcript_digest sha enc
            ((make_transcript sha enc wcs es marg)
               \<lparr> witness_commitments := wcs', violations := es', meta := m' \<rparr>))"
proof (intro conjI impI)
  show "validate_transcript_digest sha enc (make_transcript sha enc wcs es marg)"
    by (rule validate_make_transcript)
next
  let ?m = "case marg of None \<Rightarrow> [] | Some x \<Rightarrow> x"
  let ?B = "\<lparr> witness_commitments = wcs, violations = es, meta = ?m, digest = None \<rparr>"
  let ?B' = "\<lparr> witness_commitments = wcs', violations = es', meta = m', digest = None \<rparr>"
  assume h: "inj enc
        \<and> (\<forall>s. sha256_hexdigest sha s = sha256_hexdigest sha (json_dumps enc (transcript_json ?B))
                 \<longrightarrow> s = json_dumps enc (transcript_json ?B))
        \<and> \<not> same_content wcs es ?m wcs' es' m'"
  show "\<not> validate_transcript_digest sha enc
            ((make_transcript sha enc wcs es marg)
               \<lparr> witness_commitments := wcs', violations := es', meta := m' \<rparr>)"
  proof
    assume "validate_transcript_digest sha enc
            ((make_transcript sha enc wcs es marg)
               \<lparr> witness_commitments := wcs', violations := es', meta := m' \<rparr>)"
    then have "sha256_hexdigest sha (json_dumps enc (transcript_json ?B'))
        = sha256_hexdigest sha (json_dumps enc (transcript_json ?B))"
      by (simp add: validate_mutated transcript_digest_def)
    then have "json_dumps enc (transcript_json ?B') = json_dumps enc (transcript_json ?B)"
      using h by blast
    then have "sort_keys (transcript_json ?B') = sort_keys (transcript_json ?B)"
      using h by (simp add: json_dumps_def inj_eq)
    then have "same_content wcs es ?m wcs' es' m'"
      using transcript_json_canonical [of wcs es ?m wcs' es' m'] by simp
    then show False using h by blast
  qed
qed

theorem transcript_digest_tamper_evidence_witness:
  "inj unary_encoder
   \<and> validate_transcript_digest witness_sha unary_encoder
       (make_transcript witness_sha unary_encoder []
          [\<lparr> idx = Some 1, residual = Some 7, e_opening = None, source = None \<rparr>] None)
   \<and> \<not> validate_transcript_digest witness_sha unary_encoder
       ((make_transcript witness_sha unary_encoder []
          [\<lparr> idx = Some 1, residual = Some 7, e_opening = None, source = None \<rparr>] None)
         \<lparr> witness_commitments := [],
           violations := [\<lparr> idx = Some 1, residual = Some 8, e_opening = None, source = None \<rparr>],
           meta := [] \<rparr>)"
proof -
  let ?es = "[\<lparr> idx = Some 1, residual = Some 7, e_opening = None, source = None \<rparr>]"
  let ?es' = "[\<lparr> idx = Some 1, residual = Some 8, e_opening = None, source = None \<rparr>]"
  let ?s0 = "json_dumps unary_encoder (transcript_json
               \<lparr> witness_commitments = [], violations = ?es, meta = [], digest = None \<rparr>)"
  have i: "inj unary_encoder"
    by (rule inj_unary_encoder)
  have c: "\<forall>s. sha256_hexdigest witness_sha s = sha256_hexdigest witness_sha ?s0 \<longrightarrow> s = ?s0"
    using hexdigest_0_1 by (auto simp add: sha256_hexdigest_def witness_sha_def)
  have d: "\<not> same_content [] ?es [] [] ?es' []"
    by (simp add: same_content_def entry_same_def)
  note th = transcript_digest_tamper_evidence [of witness_sha unary_encoder "[]" ?es None "[]" ?es' "[]"]
  have v: "validate_transcript_digest witness_sha unary_encoder
       (make_transcript witness_sha unary_encoder [] ?es None)"
    using th by blast
  have n: "\<not> validate_transcript_digest witness_sha unary_encoder
       ((make_transcript witness_sha unary_encoder [] ?es None)
         \<lparr> witness_commitments := [], violations := ?es', meta := [] \<rparr>)"
    using th i c d by simp
  show ?thesis
    using i v n by blast
qed

section \<open>The evaluator and the tolerance\<close>



section \<open>Properties of the commitment scheme\<close>

text \<open>
  Claim C3. For every mapping \<open>m\<close>, when \<^verbatim>\<open>commit_map(m)\<close> returns \<open>(digest, nonce)\<close>
  (whatever nonce was drawn), \<^verbatim>\<open>verify_commit(digest, open_map(m, nonce))\<close> is true.
\<close>

theorem commit_open_verify:
  "verify_commit sha enc (fst (commit_map sha enc nonce m))
     (open_map m (snd (commit_map sha enc nonce m)))"
  by (simp add: verify_commit_def commit_map_def open_map_def)

section \<open>Fingerprints\<close>

lemma filter_key_singleton:
  "distinct (map fst zs) \<Longrightarrow> k \<in> set zs \<Longrightarrow> filter (\<lambda>x. fst k = fst x) zs = [k]"
proof (induction zs)
  case Nil
  then show ?case by simp
next
  case (Cons z zs)
  show ?case
  proof (cases "k = z")
    case True
    then have "filter (\<lambda>x. fst k = fst x) zs = []"
      using Cons.prems(1) by (auto simp add: filter_empty_conv)
    with True show ?thesis by simp
  next
    case False
    then have "k \<in> set zs" using Cons.prems(2) by simp
    moreover have "fst k \<noteq> fst z"
    proof
      assume "fst k = fst z"
      then have "fst z \<in> fst ` set zs"
        using \<open>k \<in> set zs\<close> by (metis imageI)
      then show False using Cons.prems(1) by simp
    qed
    ultimately show ?thesis using Cons by simp
  qed
qed

lemma sort_key_fst_reorder:
  assumes "distinct (map fst xs)" and "distinct (map fst ys)" and "set xs = set ys"
  shows "sort_key fst xs = sort_key fst ys"
proof (rule properties_for_sort_key)
  have dx: "distinct xs" and dy: "distinct ys"
    using assms(1,2) by (simp_all add: distinct_map)
  show "mset (sort_key fst ys) = mset xs"
    using set_eq_iff_mset_eq_distinct [OF dx dy] assms(3) by simp
  show "sorted (map fst (sort_key fst ys))"
    by simp
  fix k
  assume "k \<in> set (sort_key fst ys)"
  then have k: "k \<in> set ys" by simp
  have "filter (\<lambda>x. fst k = fst x) (sort_key fst ys) = sort_key fst (filter (\<lambda>x. fst k = fst x) ys)"
    by (rule filter_sort)
  also have "\<dots> = [k]"
    using filter_key_singleton [OF assms(2) k] by simp
  also have "\<dots> = filter (\<lambda>x. fst k = fst x) xs"
    using filter_key_singleton [OF assms(1)] k assms(3) by simp
  finally show "filter (\<lambda>x. fst k = fst x) (sort_key fst ys) = filter (\<lambda>x. fst k = fst x) xs" .
qed

text \<open>
  Claim C8. Two constraints whose parts \<open>A\<close>, \<open>B\<close> and \<open>C\<close> hold the same
  (variable, coefficient) entries, in any order, and whose sources agree have the same
  fingerprint, for every truncation. (The keys of a dictionary are distinct.)
\<close>

theorem fingerprint_order_invariant:
  assumes "distinct (map fst (A_form c))" and "distinct (map fst (A_form c'))"
    and "distinct (map fst (B_form c))" and "distinct (map fst (B_form c'))"
    and "distinct (map fst (C_form c))" and "distinct (map fst (C_form c'))"
    and "set (A_form c) = set (A_form c')"
    and "set (B_form c) = set (B_form c')"
    and "set (C_form c) = set (C_form c')"
    and "c_source c = c_source c'"
  shows "fingerprint_constraint sha fmt c trunc = fingerprint_constraint sha fmt c' trunc"
proof -
  have "normalize_constraint_representation fmt c = normalize_constraint_representation fmt c'"
    unfolding normalize_constraint_representation_def Let_def
      sort_key_fst_reorder [OF assms(1,2,7)] sort_key_fst_reorder [OF assms(3,4,8)]
      sort_key_fst_reorder [OF assms(5,6,9)] assms(10)
    by (rule refl)
  then show ?thesis
    by (simp add: fingerprint_constraint_def)
qed

theorem fingerprint_order_invariant_witness:
  "\<forall>sha fmt.
     fingerprint_constraint sha fmt
       \<lparr> A_form = [(''a'', 1), (''b'', 2)], B_form = [(''ONE'', 1), (''c'', 3)],
         C_form = [(''d'', 1)], c_source = Some ''d <== (a + 2 * b) * (1 + 3 * c);'' \<rparr> (Some 16)
     = fingerprint_constraint sha fmt
       \<lparr> A_form = [(''b'', 2), (''a'', 1)], B_form = [(''c'', 3), (''ONE'', 1)],
         C_form = [(''d'', 1)], c_source = Some ''d <== (a + 2 * b) * (1 + 3 * c);'' \<rparr> (Some 16)"
proof (intro allI)
  fix sha :: sha256 and fmt :: "rat \<Rightarrow> string"
  show "fingerprint_constraint sha fmt
       \<lparr> A_form = [(''a'', 1), (''b'', 2)], B_form = [(''ONE'', 1), (''c'', 3)],
         C_form = [(''d'', 1)], c_source = Some ''d <== (a + 2 * b) * (1 + 3 * c);'' \<rparr> (Some 16)
     = fingerprint_constraint sha fmt
       \<lparr> A_form = [(''b'', 2), (''a'', 1)], B_form = [(''c'', 3), (''ONE'', 1)],
         C_form = [(''d'', 1)], c_source = Some ''d <== (a + 2 * b) * (1 + 3 * c);'' \<rparr> (Some 16)"
    by (rule fingerprint_order_invariant) auto
qed

section \<open>The slicer\<close>

lemma slice_loop_append:
  "slice_loop sha fmt lg d (xs @ ys) st = slice_loop sha fmt lg d ys (slice_loop sha fmt lg d xs st)"
proof (induction xs arbitrary: st)
  case Nil
  then show ?case by simp
next
  case (Cons x xs)
  obtain i c where x: "x = (i, c)" by (cases x)
  obtain cands seen where st: "st = (cands, seen)" by (cases st)
  show ?case
  proof (cases "d \<and> fingerprint_constraint sha fmt c (Some 16) \<in> seen")
    case True
    then show ?thesis
      using Cons.IH [of "(cands, seen)"] by (auto simp add: x st Let_def)
  next
    case False
    then show ?thesis
      using Cons.IH [of "(cands @ [\<lparr> cand_idx = i, score = score_constraint lg c,
          fingerprint = fingerprint_constraint sha fmt c (Some 16),
          cand_summary = constraint_summary c, cand_constraint = c \<rparr>],
          insert (fingerprint_constraint sha fmt c (Some 16)) seen)"]
      by (auto simp add: x st Let_def)
  qed
qed

lemma slice_loop_seen:
  "snd (slice_loop sha fmt lg d ics (cands, seen))
     = seen \<union> (\<lambda>p. fingerprint_constraint sha fmt (snd p) (Some 16)) ` set ics"
proof (induction ics arbitrary: cands seen)
  case Nil
  then show ?case by simp
next
  case (Cons x ics)
  obtain i c where x: "x = (i, c)" by (cases x)
  show ?case
  proof (cases "d \<and> fingerprint_constraint sha fmt c (Some 16) \<in> seen")
    case True
    then show ?thesis
      using Cons.IH [of cands seen] by (auto simp add: x Let_def)
  next
    case False
    then show ?thesis
      using Cons.IH [of "cands @ [\<lparr> cand_idx = i, score = score_constraint lg c,
          fingerprint = fingerprint_constraint sha fmt c (Some 16),
          cand_summary = constraint_summary c, cand_constraint = c \<rparr>]"
          "insert (fingerprint_constraint sha fmt c (Some 16)) seen"]
      by (auto simp add: x Let_def)
  qed
qed

lemma slice_loop_idx:
  "cand_idx ` set (fst (slice_loop sha fmt lg d ics (cands, seen)))
     \<subseteq> cand_idx ` set cands \<union> fst ` set ics"
proof (induction ics arbitrary: cands seen)
  case Nil
  then show ?case by simp
next
  case (Cons x ics)
  obtain i c where x: "x = (i, c)" by (cases x)
  show ?case
  proof (cases "d \<and> fingerprint_constraint sha fmt c (Some 16) \<in> seen")
    case True
    then show ?thesis
      using Cons.IH [of cands seen] by (auto simp add: x Let_def)
  next
    case False
    then show ?thesis
      using Cons.IH [of "cands @ [\<lparr> cand_idx = i, score = score_constraint lg c,
          fingerprint = fingerprint_constraint sha fmt c (Some 16),
          cand_summary = constraint_summary c, cand_constraint = c \<rparr>]"
          "insert (fingerprint_constraint sha fmt c (Some 16)) seen"]
      by (auto simp add: x Let_def)
  qed
qed

lemma slice_loop_keep:
  "set cands \<subseteq> set (fst (slice_loop sha fmt lg d ics (cands, seen)))"
proof (induction ics arbitrary: cands seen)
  case Nil
  then show ?case by simp
next
  case (Cons x ics)
  obtain i c where x: "x = (i, c)" by (cases x)
  show ?case
  proof (cases "d \<and> fingerprint_constraint sha fmt c (Some 16) \<in> seen")
    case True
    then show ?thesis
      using Cons.IH [of cands seen] by (auto simp add: x Let_def)
  next
    case False
    then show ?thesis
      using Cons.IH [of "cands @ [\<lparr> cand_idx = i, score = score_constraint lg c,
          fingerprint = fingerprint_constraint sha fmt c (Some 16),
          cand_summary = constraint_summary c, cand_constraint = c \<rparr>]"
          "insert (fingerprint_constraint sha fmt c (Some 16)) seen"]
      by (auto simp add: x Let_def)
  qed
qed

lemma slice_loop_length:
  "length (fst (slice_loop sha fmt lg d ics (cands, seen))) \<le> length cands + length ics"
proof (induction ics arbitrary: cands seen)
  case Nil
  then show ?case by simp
next
  case (Cons x ics)
  obtain i c where x: "x = (i, c)" by (cases x)
  show ?case
  proof (cases "d \<and> fingerprint_constraint sha fmt c (Some 16) \<in> seen")
    case True
    then show ?thesis
      using Cons.IH [of cands seen] by (auto simp add: x Let_def)
  next
    case False
    then show ?thesis
      using Cons.IH [of "cands @ [\<lparr> cand_idx = i, score = score_constraint lg c,
          fingerprint = fingerprint_constraint sha fmt c (Some 16),
          cand_summary = constraint_summary c, cand_constraint = c \<rparr>]"
          "insert (fingerprint_constraint sha fmt c (Some 16)) seen"]
      by (auto simp add: x Let_def)
  qed
qed

lemma enumerate_split:
  assumes "j < length cs"
  shows "enumerate 0 cs
    = enumerate 0 (take j cs) @ (j, cs ! j) # enumerate (Suc j) (drop (Suc j) cs)"
proof -
  have "cs = take j cs @ cs ! j # drop (Suc j) cs"
    using assms by (simp add: id_take_nth_drop)
  then have "enumerate 0 cs = enumerate 0 (take j cs @ cs ! j # drop (Suc j) cs)"
    by simp
  also have "\<dots> = enumerate 0 (take j cs) @ (j, cs ! j) # enumerate (Suc j) (drop (Suc j) cs)"
    using assms by (simp add: enumerate_append_eq min_def)
  finally show ?thesis .
qed

lemma set_slice_to:
  "int (length xs) \<le> k \<Longrightarrow> slice_to xs k = xs"
  by (simp add: slice_to_def)

lemma set_slice_to_subset: "set (slice_to xs k) \<subseteq> set xs"
  by (auto simp add: slice_to_def dest: in_set_takeD)

lemma duplicate_not_retained:
  assumes "i < j" and "j < length cs" and "cs ! i = cs ! j"
  shows "j \<notin> cand_idx ` set (fst (slice_loop sha fmt lg True (enumerate 0 cs) ([], {})))"
proof -
  let ?pre = "enumerate 0 (take j cs)"
  let ?post = "enumerate (Suc j) (drop (Suc j) cs)"
  let ?fp = "\<lambda>c. fingerprint_constraint sha fmt c (Some 16)"
  obtain c1 s1 where st1: "slice_loop sha fmt lg True ?pre ([], {}) = (c1, s1)"
    by (cases "slice_loop sha fmt lg True ?pre ([], {})")
  have "(i, cs ! i) \<in> set ?pre"
    using assms(1,2) by (simp add: in_set_enumerate_eq)
  then have "?fp (cs ! i) \<in> (\<lambda>p. ?fp (snd p)) ` set ?pre"
    by force
  then have seen: "?fp (cs ! j) \<in> s1"
    using slice_loop_seen [of sha fmt lg True ?pre "[]" "{}"] st1 assms(3) by simp
  have c1: "cand_idx ` set c1 \<subseteq> fst ` set ?pre"
    using slice_loop_idx [of sha fmt lg True ?pre "[]" "{}"] st1 by simp
  have "slice_loop sha fmt lg True (enumerate 0 cs) ([], {})
      = slice_loop sha fmt lg True ?post (c1, s1)"
    using seen by (simp add: enumerate_split [OF assms(2)] slice_loop_append st1 Let_def)
  then have "cand_idx ` set (fst (slice_loop sha fmt lg True (enumerate 0 cs) ([], {})))
      \<subseteq> fst ` set ?pre \<union> fst ` set ?post"
    using slice_loop_idx [of sha fmt lg True ?post c1 s1] c1 by auto
  moreover have "j \<notin> fst ` set ?pre \<union> fst ` set ?post"
    by (auto simp add: in_set_enumerate_eq)
  ultimately show ?thesis by blast
qed

lemma first_occurrence_retained:
  assumes "i < length cs"
    and "\<forall>h<i. fingerprint_constraint sha fmt (cs ! h) (Some 16)
               \<noteq> fingerprint_constraint sha fmt (cs ! i) (Some 16)"
  shows "i \<in> cand_idx ` set (fst (slice_loop sha fmt lg d (enumerate 0 cs) ([], {})))"
proof -
  let ?pre = "enumerate 0 (take i cs)"
  let ?post = "enumerate (Suc i) (drop (Suc i) cs)"
  let ?fp = "\<lambda>c. fingerprint_constraint sha fmt c (Some 16)"
  let ?cand = "\<lparr> cand_idx = i, score = score_constraint lg (cs ! i),
          fingerprint = ?fp (cs ! i),
          cand_summary = constraint_summary (cs ! i), cand_constraint = cs ! i \<rparr>"
  obtain c1 s1 where st1: "slice_loop sha fmt lg d ?pre ([], {}) = (c1, s1)"
    by (cases "slice_loop sha fmt lg d ?pre ([], {})")
  have s1: "s1 = (\<lambda>p. ?fp (snd p)) ` set ?pre"
    using slice_loop_seen [of sha fmt lg d ?pre "[]" "{}"] st1 by simp
  have unseen: "?fp (cs ! i) \<notin> s1"
  proof
    assume "?fp (cs ! i) \<in> s1"
    then obtain p where p: "p \<in> set ?pre" "?fp (snd p) = ?fp (cs ! i)"
      unfolding s1 by auto
    then have "fst p < i" "snd p = cs ! fst p"
      using assms(1) by (auto simp add: in_set_enumerate_eq)
    then show False using assms(2) p(2) by auto
  qed
  have "slice_loop sha fmt lg d (enumerate 0 cs) ([], {})
      = slice_loop sha fmt lg d ?post (c1 @ [?cand], insert (?fp (cs ! i)) s1)"
    using unseen by (simp add: enumerate_split [OF assms(1)] slice_loop_append st1 Let_def)
  then have "?cand \<in> set (fst (slice_loop sha fmt lg d (enumerate 0 cs) ([], {})))"
    using slice_loop_keep [of "c1 @ [?cand]" sha fmt lg d ?post "insert (?fp (cs ! i)) s1"]
    by auto
  then show ?thesis by force
qed

text \<open>
  Claim C9, as amended. When the constraints at the indices \<open>i < j\<close> are identical,
  \<^verbatim>\<open>slice_r1cs\<close> with \<^verbatim>\<open>deduplicate=True\<close> returns a list that does not contain \<open>j\<close>; and
  it contains \<open>i\<close> when no constraint before \<open>i\<close> has the fingerprint of \<open>i\<close> and
  \<open>top_k\<close> is at least the number of constraints, so that nothing is cut off.
\<close>

theorem slice_r1cs_deduplicates:
  assumes "i < j" and "j < length (constraints r)"
    and "constraints r ! i = constraints r ! j"
  shows "j \<notin> cand_idx ` set (slice_r1cs sha fmt log1p r top_k True)
    \<and> ((\<forall>h<i. fingerprint_constraint sha fmt (constraints r ! h) (Some 16)
                \<noteq> fingerprint_constraint sha fmt (constraints r ! i) (Some 16))
         \<and> int (length (constraints r)) \<le> top_k
        \<longrightarrow> i \<in> cand_idx ` set (slice_r1cs sha fmt log1p r top_k True))"
proof
  let ?cands = "fst (slice_loop sha fmt log1p True (enumerate 0 (constraints r)) ([], {}))"
  have "set (slice_r1cs sha fmt log1p r top_k True) \<subseteq> set ?cands"
    using set_slice_to_subset [of "sort_key (\<lambda>x. - score x) ?cands" top_k]
    by (simp add: slice_r1cs_def Let_def)
  then show "j \<notin> cand_idx ` set (slice_r1cs sha fmt log1p r top_k True)"
    using duplicate_not_retained [OF assms, of sha fmt log1p] by blast
  show "(\<forall>h<i. fingerprint_constraint sha fmt (constraints r ! h) (Some 16)
                \<noteq> fingerprint_constraint sha fmt (constraints r ! i) (Some 16))
         \<and> int (length (constraints r)) \<le> top_k
        \<longrightarrow> i \<in> cand_idx ` set (slice_r1cs sha fmt log1p r top_k True)"
  proof
    assume h: "(\<forall>h<i. fingerprint_constraint sha fmt (constraints r ! h) (Some 16)
                \<noteq> fingerprint_constraint sha fmt (constraints r ! i) (Some 16))
         \<and> int (length (constraints r)) \<le> top_k"
    have i: "i < length (constraints r)" using assms(1,2) by simp
    have "length ?cands \<le> length (constraints r)"
      using slice_loop_length [of sha fmt log1p True "enumerate 0 (constraints r)" "[]" "{}"]
      by simp
    then have "int (length (sort_key (\<lambda>x. - score x) ?cands)) \<le> top_k"
      using h by simp
    then have "slice_r1cs sha fmt log1p r top_k True = sort_key (\<lambda>x. - score x) ?cands"
      by (simp add: slice_r1cs_def Let_def set_slice_to)
    then show "i \<in> cand_idx ` set (slice_r1cs sha fmt log1p r top_k True)"
      using first_occurrence_retained [OF i, of sha fmt log1p True] h by simp
  qed
qed

theorem slice_r1cs_deduplicates_witness:
  "\<forall>sha fmt log1p.
     map cand_idx (slice_r1cs sha fmt log1p
       \<lparr> variables = [], constraints = [constraints scenario_r1cs ! 0, constraints scenario_r1cs ! 1,
            constraints scenario_r1cs ! 0] \<rparr> 10 True) \<noteq> []
   \<and> 2 \<notin> cand_idx ` set (slice_r1cs sha fmt log1p
       \<lparr> variables = [], constraints = [constraints scenario_r1cs ! 0, constraints scenario_r1cs ! 1,
            constraints scenario_r1cs ! 0] \<rparr> 10 True)
   \<and> 0 \<in> cand_idx ` set (slice_r1cs sha fmt log1p
       \<lparr> variables = [], constraints = [constraints scenario_r1cs ! 0, constraints scenario_r1cs ! 1,
            constraints scenario_r1cs ! 0] \<rparr> 10 True)"
proof (intro allI)
  fix sha :: sha256 and fmt :: "rat \<Rightarrow> string" and log1p :: "nat \<Rightarrow> rat"
  let ?r = "\<lparr> variables = [], constraints = [constraints scenario_r1cs ! 0,
      constraints scenario_r1cs ! 1, constraints scenario_r1cs ! 0] \<rparr>"
  have a: "(0::nat) < 2" by simp
  have b: "2 < length (constraints ?r)" by simp
  have c: "constraints ?r ! 0 = constraints ?r ! 2" by simp
  note th = slice_r1cs_deduplicates [OF a b c, of sha fmt log1p 10]
  have h: "(\<forall>h<(0::nat). fingerprint_constraint sha fmt (constraints ?r ! h) (Some 16)
                \<noteq> fingerprint_constraint sha fmt (constraints ?r ! 0) (Some 16))
         \<and> int (length (constraints ?r)) \<le> 10"
    by simp
  have x: "2 \<notin> cand_idx ` set (slice_r1cs sha fmt log1p ?r 10 True)"
    using th by blast
  have y: "0 \<in> cand_idx ` set (slice_r1cs sha fmt log1p ?r 10 True)"
    using th h by blast
  then have z: "map cand_idx (slice_r1cs sha fmt log1p ?r 10 True) \<noteq> []"
    by auto
  show "map cand_idx (slice_r1cs sha fmt log1p ?r 10 True) \<noteq> []
   \<and> 2 \<notin> cand_idx ` set (slice_r1cs sha fmt log1p ?r 10 True)
   \<and> 0 \<in> cand_idx ` set (slice_r1cs sha fmt log1p ?r 10 True)"
    using x y z by blast
qed

text \<open>
  Claim C9 as stated fails. Of three identical constraints only the index 0 is returned, so
  for the identical pair at \<open>i = 1\<close>, \<open>j = 2\<close> the list does not contain \<open>i\<close>; and with
  \<^verbatim>\<open>top_k=0\<close> the list is empty, so it does not contain the first of two identical
  constraints either.
\<close>

theorem slice_r1cs_drops_later_duplicate:
  "\<forall>sha fmt log1p.
     map cand_idx (slice_r1cs sha fmt log1p
       \<lparr> variables = [], constraints = [constraints scenario_r1cs ! 0, constraints scenario_r1cs ! 0,
            constraints scenario_r1cs ! 0] \<rparr> 10 True) = [0]
   \<and> map cand_idx (slice_r1cs sha fmt log1p
       \<lparr> variables = [], constraints = [constraints scenario_r1cs ! 0,
            constraints scenario_r1cs ! 0] \<rparr> 0 True) = []"
  by (simp add: slice_r1cs_def Let_def slice_to_def)

end
